theory Spec2Isabelle
  imports Complex_Main "HOL-Library.Multiset" "HOL-Library.Sublist"
begin

section \<open>Weight transform\<close>

text \<open>
  \<^verbatim>\<open>ranks_to_weights(num_topics, ranks)\<close> builds a dictionary by a comprehension over
  \<^verbatim>\<open>enumerate(ranks)\<close>: entries are stored in order, a later entry for the same topic
  replaces the earlier one. Topic indices are natural numbers, weights are Python
  integers. Only \<^verbatim>\<open>get\<close> is ever applied to the dictionary, so it is a map.
\<close>

definition ranks_to_weights :: "nat \<Rightarrow> nat list \<Rightarrow> (nat \<rightharpoonup> int)" where
  "ranks_to_weights num_topics ranks =
     fold (\<lambda>(rank, topic) weights. weights(topic \<mapsto> int num_topics - int rank))
       (enumerate 0 ranks) Map.empty"

text \<open>\<^verbatim>\<open>weights.get(col, 0)\<close>\<close>

definition get_weight :: "(nat \<rightharpoonup> int) \<Rightarrow> nat \<Rightarrow> int" where
  "get_weight weights col = (case weights col of None \<Rightarrow> 0 | Some w \<Rightarrow> w)"

lemma fold_weights_notin:
  "t \<notin> snd ` set ps \<Longrightarrow>
   fold (\<lambda>(rank, topic) weights. weights(topic \<mapsto> int n - int rank)) ps m t = m t"
  by (induction ps arbitrary: m) (auto split: prod.splits)

lemma fold_weights_distinct:
  "distinct (map snd ps) \<Longrightarrow> (r, t) \<in> set ps \<Longrightarrow>
   fold (\<lambda>(rank, topic) weights. weights(topic \<mapsto> int n - int rank)) ps m t
     = Some (int n - int r)"
proof (induction ps arbitrary: m)
  case Nil
  then show ?case by simp
next
  case (Cons p ps)
  show ?case
  proof (cases "p = (r, t)")
    case True
    with Cons.prems(1) have "t \<notin> snd ` set ps" by auto
    from fold_weights_notin [OF this, of n "m(t \<mapsto> int n - int r)"]
    have "fold (\<lambda>(rank, topic) weights. weights(topic \<mapsto> int n - int rank)) ps
            (m(t \<mapsto> int n - int r)) t = Some (int n - int r)"
      by simp
    with True show ?thesis by (simp del: fun_upd_apply)
  next
    case False
    with Cons show ?thesis by auto
  qed
qed

lemma snd_enumerate: "map snd (enumerate k xs) = xs"
  by (induction xs arbitrary: k) auto

text \<open>
  Claim C3. For a ranking of distinct topic indices that is no longer than the number of
  topics, the topic at 0-based rank \<open>r\<close> gets weight \<open>topic_count - r\<close>, a topic that is
  not ranked has no entry (weight 0 through \<^verbatim>\<open>get\<close>), and for three topics the ranking
  \<open>[2, 0]\<close> gives exactly the dictionary \<open>{2: 3, 0: 2}\<close>.
\<close>

theorem ranks_to_weights_linear:
  assumes "length ranking \<le> topic_count" and "distinct ranking"
  shows "(\<forall>r < length ranking.
            ranks_to_weights topic_count ranking (ranking ! r) = Some (int topic_count - int r))
       \<and> (\<forall>t. t \<notin> set ranking \<longrightarrow>
            ranks_to_weights topic_count ranking t = None
            \<and> get_weight (ranks_to_weights topic_count ranking) t = 0)
       \<and> ranks_to_weights 3 [2, 0] = [2 \<mapsto> 3, 0 \<mapsto> 2]"
proof (intro conjI allI impI)
  fix r assume "r < length ranking"
  then have "(r, ranking ! r) \<in> set (enumerate 0 ranking)"
    by (simp add: in_set_enumerate_eq)
  with assms(2) show "ranks_to_weights topic_count ranking (ranking ! r) = Some (int topic_count - int r)"
    unfolding ranks_to_weights_def by (intro fold_weights_distinct) (simp_all add: snd_enumerate)
next
  fix t assume "t \<notin> set ranking"
  then have "t \<notin> snd ` set (enumerate 0 ranking)"
    by (metis list.set_map snd_enumerate)
  then show none: "ranks_to_weights topic_count ranking t = None"
    unfolding ranks_to_weights_def by (simp add: fold_weights_notin)
  then show "get_weight (ranks_to_weights topic_count ranking) t = 0"
    by (simp add: get_weight_def)
next
  show "ranks_to_weights 3 [2, 0] = [2 \<mapsto> 3, 0 \<mapsto> 2]"
    by (simp add: ranks_to_weights_def)
qed

theorem ranks_to_weights_linear_witness:
  "length [2, 0 :: nat] \<le> 3 \<and> distinct [2, 0 :: nat]
   \<and> ranks_to_weights 3 [2, 0] 2 = Some 3
   \<and> ranks_to_weights 3 [2, 0] 0 = Some 2
   \<and> ranks_to_weights 3 [2, 0] 1 = None"
  using ranks_to_weights_linear [of "[2, 0]" 3] by (simp add: ranks_to_weights_def)

section \<open>Preference store\<close>

text \<open>
  Class \<^verbatim>\<open>Prefs\<close>: the list of topic names and the dictionary from user name to the list
  of topic indices in order of preference. The dictionary keeps insertion order (it is
  iterated by \<^verbatim>\<open>solve\<close>), so it is an association list; \<open>dict_set\<close> is the assignment
  \<^verbatim>\<open>d[k] = v\<close>: an existing key keeps its place and gets the new value, a new key goes
  to the end.
\<close>

record Prefs =
  topics :: "string list"
  users :: "(string \<times> nat list) list"

fun dict_set :: "('k \<times> 'v) list \<Rightarrow> 'k \<Rightarrow> 'v \<Rightarrow> ('k \<times> 'v) list" where
  "dict_set [] k v = [(k, v)]"
| "dict_set ((k', v') # kvs) k v =
     (if k' = k then (k, v) # kvs else (k', v') # dict_set kvs k v)"

definition dict_keys :: "('k \<times> 'v) list \<Rightarrow> 'k set" where
  "dict_keys kvs = set (map fst kvs)"

text \<open>The exceptions the program raises: the two \<^verbatim>\<open>ValueError\<close>s of \<^verbatim>\<open>from_text\<close> with the
  1-based line number and the offending text, and the three assertions of \<^verbatim>\<open>solve\<close> and
  \<^verbatim>\<open>main\<close>.\<close>

datatype error =
    Duplicate_username nat string
  | Preference_not_in_topics nat string
  | More_students_than_topics
  | Not_all_assigned
  | Similarity_out_of_range

section \<open>Topic resolver\<close>

text \<open>
  \<^verbatim>\<open>jaro_winkler\<close> comes from the \<^verbatim>\<open>jellyfish\<close> package; it is a parameter of the model, a
  function from two strings to a score. Scores are Python floats; they are modelled by the
  real numbers they denote, and the comparisons and the one subtraction of
  \<^verbatim>\<open>index_topic\<close> are taken exactly.

  \<^verbatim>\<open>index_topic\<close> reads the module variable \<^verbatim>\<open>jaro_winkler_threshold\<close>; the model passes the
  value of that variable as the argument \<open>threshold\<close>. The variable is bound once, at
  module level, to 0.95.

  The loop of \<^verbatim>\<open>index_topic\<close> returns from the function on a score of exactly 1.0
  (\<open>Inl\<close>), and otherwise ends with the pair \<^verbatim>\<open>first, second\<close> (\<open>Inr\<close>). The notice
  printed on a corrected preference does not change the result and is left out.
\<close>

type_synonym similarity = "string \<Rightarrow> string \<Rightarrow> real"

definition jaro_winkler_threshold :: real where
  "jaro_winkler_threshold = 0.95"

fun index_topic_loop ::
  "(nat \<times> real) list \<Rightarrow> (nat \<times> real) option \<Rightarrow> (nat \<times> real) option
     \<Rightarrow> nat + ((nat \<times> real) option \<times> (nat \<times> real) option)" where
  "index_topic_loop [] first second = Inr (first, second)"
| "index_topic_loop ((i, score) # scores) first second =
     (if score = 1 then Inl i
      else if (case first of None \<Rightarrow> True | Some (_, best) \<Rightarrow> score > best)
        then index_topic_loop scores (Some (i, score)) first
      else if (case second of None \<Rightarrow> True | Some (_, next_best) \<Rightarrow> score > next_best)
        then index_topic_loop scores first (Some (i, score))
      else index_topic_loop scores first second)"

definition index_topic :: "similarity \<Rightarrow> real \<Rightarrow> Prefs \<Rightarrow> string \<Rightarrow> nat option" where
  "index_topic jaro_winkler threshold self s =
     (let scores = map (\<lambda>(i, topic). (i, jaro_winkler s topic)) (enumerate 0 (topics self))
      in case index_topic_loop scores None None of
           Inl i \<Rightarrow> Some i
         | Inr (None, _) \<Rightarrow> None
         | Inr (Some (i, score), None) \<Rightarrow>
             if score \<ge> threshold then Some i else None
         | Inr (Some (i, score), Some (_, score2)) \<Rightarrow>
             if score - score2 < 0.1 \<or> score < threshold then None else Some i)"


text \<open>
  The acceptance policy in the words of the specification, on the list of scores of the
  token against every topic name: the best score is the maximum, the second-best score is
  the maximum of what is left when one occurrence of the best score is taken away, and an
  index is the first position that holds the score.
\<close>

definition first_index :: "('a \<Rightarrow> bool) \<Rightarrow> 'a list \<Rightarrow> nat" where
  "first_index P xs = length (takeWhile (\<lambda>x. \<not> P x) xs)"

definition best_score :: "real list \<Rightarrow> real" where
  "best_score scores = Max (set scores)"

definition second_best_score :: "real list \<Rightarrow> real" where
  "second_best_score scores = Max (set (remove1 (best_score scores) scores))"

definition resolve_spec :: "similarity \<Rightarrow> real \<Rightarrow> string list \<Rightarrow> string \<Rightarrow> nat option" where
  "resolve_spec metric threshold topic_names token =
     (let scores = map (metric token) topic_names
      in if 1 \<in> set scores then Some (first_index (\<lambda>x. x = 1) scores)
         else if scores = [] then None
         else if length scores = 1
           then (if scores ! 0 \<ge> threshold then Some 0 else None)
         else if best_score scores \<ge> threshold
                 \<and> best_score scores - second_best_score scores \<ge> 0.1
           then Some (first_index (\<lambda>x. x = best_score scores) scores)
         else None)"

subsection \<open>The loop tracks the best and the second-best score\<close>

definition tracked :: "real list \<Rightarrow> (nat \<times> real) option \<Rightarrow> (nat \<times> real) option \<Rightarrow> bool" where
  "tracked ds first second \<longleftrightarrow>
     (if ds = [] then first = None \<and> second = None
      else first = Some (first_index (\<lambda>x. x = best_score ds) ds, best_score ds)
         \<and> (if length ds = 1 then second = None
            else \<exists>j. second = Some (j, second_best_score ds)))"

lemma first_index_append_in:
  "\<exists>x \<in> set xs. P x \<Longrightarrow> first_index P (xs @ ys) = first_index P xs"
  by (auto simp: first_index_def takeWhile_append1)

lemma first_index_append_notin:
  "\<forall>x \<in> set xs. \<not> P x \<Longrightarrow> first_index P (xs @ ys) = length xs + first_index P ys"
  by (simp add: first_index_def takeWhile_append2)

lemma first_index_hit: "P x \<Longrightarrow> first_index P (x # xs) = 0"
  by (simp add: first_index_def)

lemma best_score_snoc:
  "ds \<noteq> [] \<Longrightarrow> best_score (ds @ [x]) = max x (best_score ds)"
  by (simp add: best_score_def)

lemma best_score_in: "ds \<noteq> [] \<Longrightarrow> best_score ds \<in> set ds"
  unfolding best_score_def by (rule Max_in) simp_all

lemma best_score_ge: "y \<in> set ds \<Longrightarrow> y \<le> best_score ds"
  unfolding best_score_def by simp

lemma remove1_snoc_in: "b \<in> set ds \<Longrightarrow> remove1 b (ds @ [x]) = remove1 b ds @ [x]"
  by (simp add: remove1_append)

lemma remove1_snoc_notin: "x \<notin> set ds \<Longrightarrow> remove1 x (ds @ [x]) = ds"
  by (simp add: remove1_append)

lemma remove1_nonempty: "length ds \<noteq> 1 \<Longrightarrow> ds \<noteq> [] \<Longrightarrow> remove1 b ds \<noteq> []"
  by (cases ds) (auto split: if_splits)

lemma tracked_new_best:
  assumes "tracked ds first second" "ds \<noteq> []" "x > best_score ds"
  shows "tracked (ds @ [x]) (Some (length ds, x)) first"
proof -
  have notin: "x \<notin> set ds" using assms(3) best_score_ge by fastforce
  have b: "best_score (ds @ [x]) = x" using assms by (simp add: best_score_snoc)
  have "first_index (\<lambda>y. y = x) (ds @ [x]) = length ds"
    using notin by (subst first_index_append_notin) (auto simp: first_index_hit)
  moreover have "second_best_score (ds @ [x]) = best_score ds"
    unfolding second_best_score_def b using notin by (simp add: remove1_snoc_notin best_score_def)
  moreover have "first = Some (first_index (\<lambda>x. x = best_score ds) ds, best_score ds)"
    using assms by (simp add: tracked_def)
  ultimately show ?thesis using assms(2) b by (simp add: tracked_def)
qed

lemma tracked_old_best:
  assumes "tracked ds first second" "ds \<noteq> []" "\<not> x > best_score ds"
  shows "best_score (ds @ [x]) = best_score ds"
    and "first = Some (first_index (\<lambda>y. y = best_score (ds @ [x])) (ds @ [x]), best_score (ds @ [x]))"
    and "second_best_score (ds @ [x]) = Max (set (remove1 (best_score ds) ds @ [x]))"
proof -
  show b: "best_score (ds @ [x]) = best_score ds" using assms by (simp add: best_score_snoc)
  have "first_index (\<lambda>y. y = best_score ds) (ds @ [x]) = first_index (\<lambda>y. y = best_score ds) ds"
    using best_score_in [OF assms(2)] by (intro first_index_append_in) auto
  then show "first = Some (first_index (\<lambda>y. y = best_score (ds @ [x])) (ds @ [x]), best_score (ds @ [x]))"
    using assms by (simp add: tracked_def b)
  show "second_best_score (ds @ [x]) = Max (set (remove1 (best_score ds) ds @ [x]))"
    using best_score_in [OF assms(2)] by (simp add: second_best_score_def b remove1_snoc_in)
qed

lemma tracked_new_second:
  assumes "tracked ds first second" "ds \<noteq> []" "\<not> x > best_score ds"
    and "case second of None \<Rightarrow> True | Some (_, next_best) \<Rightarrow> x > next_best"
  shows "tracked (ds @ [x]) first (Some (length ds, x))"
proof -
  note ob = tracked_old_best [OF assms(1-3)]
  have "second_best_score (ds @ [x]) = x"
  proof (cases "length ds = 1")
    case True
    then have "remove1 (best_score ds) ds = []"
      using best_score_in [OF assms(2)] by (cases ds) auto
    then show ?thesis by (simp add: ob(3))
  next
    case False
    then obtain j where "second = Some (j, second_best_score ds)"
      using assms(1,2) by (auto simp: tracked_def)
    with assms(4) have "x > Max (set (remove1 (best_score ds) ds))"
      by (simp add: second_best_score_def)
    moreover have "remove1 (best_score ds) ds \<noteq> []"
      using False assms(2) by (rule remove1_nonempty)
    ultimately show ?thesis by (simp add: ob(3))
  qed
  then show ?thesis using ob(2) assms(2) by (simp add: tracked_def)
qed

lemma tracked_unchanged:
  assumes "tracked ds first second" "ds \<noteq> []" "\<not> x > best_score ds"
    and "\<not> (case second of None \<Rightarrow> True | Some (_, next_best) \<Rightarrow> x > next_best)"
  shows "tracked (ds @ [x]) first second"
proof -
  note ob = tracked_old_best [OF assms(1-3)]
  from assms(4) obtain j c where s: "second = Some (j, c)" "\<not> x > c"
    by (auto split: option.splits)
  with assms(1,2) have c: "length ds \<noteq> 1" "c = second_best_score ds"
    by (auto simp: tracked_def split: if_splits)
  have "remove1 (best_score ds) ds \<noteq> []"
    using c(1) assms(2) by (rule remove1_nonempty)
  then have "Max (set (remove1 (best_score ds) ds @ [x])) = max x (second_best_score ds)"
    by (simp add: second_best_score_def)
  then have "second_best_score (ds @ [x]) = c"
    using s(2) c(2) ob(3) by simp
  then show ?thesis using ob(2) s(1) assms(2) by (simp add: tracked_def)
qed

lemma tracked_first: "tracked [x] (Some (0, x)) None"
  by (simp add: tracked_def best_score_def first_index_def)

lemma index_topic_loop_tracked:
  assumes "tracked ds first second" "1 \<notin> set ds"
  shows "case index_topic_loop (enumerate (length ds) xs) first second of
           Inl i \<Rightarrow> 1 \<in> set xs \<and> i = length ds + first_index (\<lambda>x. x = 1) xs
         | Inr (f, s) \<Rightarrow> 1 \<notin> set xs \<and> tracked (ds @ xs) f s"
  using assms
proof (induction xs arbitrary: ds first second)
  case Nil
  then show ?case by simp
next
  case (Cons x xs)
  show ?case
  proof (cases "x = 1")
    case True
    then show ?thesis by (simp add: first_index_hit)
  next
    case False
    have fi: "first_index (\<lambda>x. x = 1) (x # xs) = Suc (first_index (\<lambda>x. x = 1) xs)"
      using False by (simp add: first_index_def)
    have one: "1 \<notin> set (ds @ [x])" using False Cons.prems by simp
    have step: "\<And>f s. tracked (ds @ [x]) f s \<Longrightarrow>
       (case index_topic_loop (enumerate (Suc (length ds)) xs) f s of
           Inl i \<Rightarrow> 1 \<in> set (x # xs) \<and> i = length ds + first_index (\<lambda>x. x = 1) (x # xs)
         | Inr (f, s) \<Rightarrow> 1 \<notin> set (x # xs) \<and> tracked (ds @ x # xs) f s)"
      using Cons.IH [OF _ one] False by (fastforce simp: fi split: sum.splits)
    show ?thesis
    proof (cases "ds = []")
      case True
      with Cons.prems have "first = None" by (simp add: tracked_def)
      moreover from True have "tracked (ds @ [x]) (Some (0, x)) None"
        by (simp add: tracked_first)
      ultimately show ?thesis using True False step by simp
    next
      case ne: False
      with Cons.prems have f: "first = Some (first_index (\<lambda>x. x = best_score ds) ds, best_score ds)"
        by (simp add: tracked_def)
      show ?thesis
      proof (cases "x > best_score ds")
        case True
        from step [OF tracked_new_best [OF Cons.prems(1) ne True]] True False f
        show ?thesis by simp
      next
        case nb: False
        show ?thesis
        proof (cases "case second of None \<Rightarrow> True | Some (_, next_best) \<Rightarrow> x > next_best")
          case True
          from step [OF tracked_new_second [OF Cons.prems(1) ne nb True]] True False f nb
          show ?thesis by simp
        next
          case ns: False
          from step [OF tracked_unchanged [OF Cons.prems(1) ne nb ns]] ns False f nb
          show ?thesis by simp
        qed
      qed
    qed
  qed
qed

lemma index_topic_resolve:
  "index_topic jaro_winkler threshold self s = resolve_spec jaro_winkler threshold (topics self) s"
proof -
  define scores where "scores = map (jaro_winkler s) (topics self)"
  have en: "map (\<lambda>(i, topic). (i, jaro_winkler s topic)) (enumerate 0 (topics self)) = enumerate 0 scores"
    by (simp add: scores_def enumerate_map_upt map_zip_map2 zip_map2 enumerate_eq_zip)
  have "tracked [] None None" by (simp add: tracked_def)
  from index_topic_loop_tracked [OF this, of scores]
  have loop: "case index_topic_loop (enumerate 0 scores) None None of
           Inl i \<Rightarrow> 1 \<in> set scores \<and> i = first_index (\<lambda>x. x = 1) scores
         | Inr (f, s) \<Rightarrow> 1 \<notin> set scores \<and> tracked scores f s"
    by (auto split: sum.splits)
  show ?thesis
  proof (cases "index_topic_loop (enumerate 0 scores) None None")
    case (Inl i)
    with loop show ?thesis
      by (simp add: index_topic_def resolve_spec_def en scores_def [symmetric])
  next
    case (Inr p)
    obtain f s where p: "p = (f, s)" by (cases p)
    with loop Inr have l: "1 \<notin> set scores" "tracked scores f s" by simp_all
    show ?thesis
    proof (cases "scores = []")
      case True
      with l Inr p show ?thesis
        by (simp add: index_topic_def resolve_spec_def en scores_def [symmetric] tracked_def)
    next
      case ne: False
      show ?thesis
      proof (cases "length scores = 1")
        case True
        then obtain x where "scores = [x]" by (cases scores) auto
        with l Inr p show ?thesis
          by (simp add: index_topic_def resolve_spec_def en scores_def [symmetric] tracked_def
              best_score_def first_index_def)
      next
        case False
        with l ne obtain j where "f = Some (first_index (\<lambda>x. x = best_score scores) scores, best_score scores)"
          "s = Some (j, second_best_score scores)"
          by (auto simp: tracked_def)
        with l Inr p False ne show ?thesis
          by (auto simp: index_topic_def resolve_spec_def en scores_def [symmetric])
      qed
    qed
  qed
qed


text \<open>
  Claim C2. For every token and every topic list \<^verbatim>\<open>index_topic\<close> follows the acceptance
  policy: a topic scoring exactly 1.0 is returned at once (the first one); without
  candidates the result is \<open>None\<close>; a single candidate is accepted iff its score reaches
  the threshold; with two or more candidates the best one is accepted iff its score reaches
  the threshold and it leads the second-best score by at least 0.1.
\<close>

theorem index_topic_policy:
  "index_topic jaro_winkler threshold self s
     = resolve_spec jaro_winkler threshold (topics self) s"
  by (rule index_topic_resolve)

section \<open>Ingestion: \<^verbatim>\<open>Prefs.from_text\<close>\<close>

text \<open>
  A line is a string over the code points below 256. \<^verbatim>\<open>str.isspace\<close> holds for a
  non-empty string of whitespace characters, and \<^verbatim>\<open>str.strip\<close> removes the whitespace
  at both ends; in this range Python's whitespace characters are the code points
  9 to 13, 28 to 32, 133 and 160.
\<close>

definition is_whitespace :: "char \<Rightarrow> bool" where
  "is_whitespace c \<longleftrightarrow>
     (of_char c :: nat) \<in> {9, 10, 11, 12, 13, 28, 29, 30, 31, 32, 133, 160}"

definition isspace :: "string \<Rightarrow> bool" where
  "isspace s \<longleftrightarrow> s \<noteq> [] \<and> list_all is_whitespace s"

definition strip :: "string \<Rightarrow> string" where
  "strip s = rev (dropWhile is_whitespace (rev (dropWhile is_whitespace s)))"

text \<open>
  The parser states, and the variables of the loop of \<^verbatim>\<open>from_text\<close>: the store under
  construction, the state, the current user name and the current list of preferences.
\<close>

datatype state = TOPICS | USERNAME | PREFS

record locals =
  self :: Prefs
  state :: state
  username :: string
  prefs :: "nat list"

text \<open>
  One iteration of the loop on line \<open>i\<close> (0-based). The iterator made by
  \<^verbatim>\<open>takewhile\<close> before the loop is never consumed, so it does nothing and has no
  counterpart here. Both \<^verbatim>\<open>raise\<close> statements come before any change to the store in
  their iteration. The warning about a user name that is not an e-mail address is only
  printed and is left out.
\<close>

definition from_text_step ::
  "similarity \<Rightarrow> real \<Rightarrow> nat \<Rightarrow> string \<Rightarrow> locals \<Rightarrow> error + locals" where
  "from_text_step jaro_winkler threshold i line v =
     (if isspace line then
        (if state v = TOPICS then Inr (v\<lparr>state := USERNAME\<rparr>)
         else if state v = PREFS then
           Inr (v\<lparr>self := (self v)\<lparr>users := dict_set (users (self v)) (username v) (prefs v)\<rparr>,
                  prefs := [], username := [], state := USERNAME\<rparr>)
         else Inr v)
      else if state v = TOPICS then
        Inr (v\<lparr>self := (self v)\<lparr>topics := topics (self v) @ [strip line]\<rparr>\<rparr>)
      else if state v = USERNAME then
        (let name = strip line
         in if name \<in> dict_keys (users (self v)) then Inl (Duplicate_username (i + 1) name)
            else Inr (v\<lparr>state := PREFS, username := name\<rparr>))
      else if state v = PREFS then
        (let pref = strip line
         in case index_topic jaro_winkler threshold (self v) pref of
              None \<Rightarrow> Inl (Preference_not_in_topics (i + 1) pref)
            | Some topic \<Rightarrow> Inr (v\<lparr>prefs := prefs v @ [topic]\<rparr>))
      else Inr v)"

text \<open>The loop stops at the first exception, with the variables as they were before
  the line that raised.\<close>

fun from_text_loop ::
  "similarity \<Rightarrow> real \<Rightarrow> (nat \<times> string) list \<Rightarrow> locals \<Rightarrow> error option \<times> locals" where
  "from_text_loop jaro_winkler threshold [] v = (None, v)"
| "from_text_loop jaro_winkler threshold ((i, line) # rest) v =
     (case from_text_step jaro_winkler threshold i line v of
        Inl err \<Rightarrow> (Some err, v)
      | Inr v' \<Rightarrow> from_text_loop jaro_winkler threshold rest v')"

text \<open>
  \<^verbatim>\<open>self = Prefs()\<close> binds the fields of the new instance to the two objects that are
  the default values of the parameters of \<^verbatim>\<open>__init__\<close>. Python evaluates these defaults
  once, so every such instance works on the same list and the same dictionary, and
  \<^verbatim>\<open>from_text\<close> changes them in place. The model passes their contents in as \<open>shared\<close>
  and returns, next to the result of the call, their contents after the call.
\<close>

definition from_text_start :: "Prefs \<Rightarrow> locals" where
  "from_text_start shared = \<lparr>self = shared, state = TOPICS, username = [], prefs = []\<rparr>"

definition from_text ::
  "similarity \<Rightarrow> real \<Rightarrow> string list \<Rightarrow> Prefs \<Rightarrow> (error + Prefs) \<times> Prefs" where
  "from_text jaro_winkler threshold lines shared =
     (case from_text_loop jaro_winkler threshold (enumerate 0 lines) (from_text_start shared) of
        (Some err, v) \<Rightarrow> (Inl err, self v)
      | (None, v) \<Rightarrow>
          (let result = (if username v \<noteq> []
                         then (self v)\<lparr>users := dict_set (users (self v)) (username v) (prefs v)\<rparr>
                         else self v)
           in (Inr result, result)))"

text \<open>The default objects when the module has just been loaded.\<close>

definition empty_store :: Prefs where
  "empty_store = \<lparr>topics = [], users = []\<rparr>"

subsection \<open>The invariant of the store\<close>

text \<open>
  Every topic index in a ranking is an index into the topic list, and no name has two
  entries. \<open>shared_reachable\<close> collects the contents the default objects can have:
  \<^verbatim>\<open>from_text\<close> is the only function that changes them.
\<close>

definition store_inv :: "Prefs \<Rightarrow> bool" where
  "store_inv p \<longleftrightarrow>
     (\<forall>(name, ranks) \<in> set (users p). \<forall>topic \<in> set ranks. topic < length (topics p))
     \<and> distinct (map fst (users p))"

inductive shared_reachable :: "Prefs \<Rightarrow> bool" where
  initial: "shared_reachable empty_store"
| call: "shared_reachable shared \<Longrightarrow>
         shared_reachable (snd (from_text jaro_winkler threshold lines shared))"

definition locals_inv :: "locals \<Rightarrow> bool" where
  "locals_inv v \<longleftrightarrow>
     store_inv (self v)
     \<and> (\<forall>topic \<in> set (prefs v). topic < length (topics (self v)))
     \<and> (state v = PREFS \<longrightarrow> username v \<notin> dict_keys (users (self v)))
     \<and> (state v \<noteq> PREFS \<longrightarrow> username v = [])"

definition extends :: "Prefs \<Rightarrow> Prefs \<Rightarrow> bool" where
  "extends p q \<longleftrightarrow> (\<exists>ts us. topics q = topics p @ ts \<and> users q = users p @ us)"

lemma extends_refl: "extends p p"
  by (simp add: extends_def)

lemma extends_trans: "extends p q \<Longrightarrow> extends q r \<Longrightarrow> extends p r"
  by (auto simp: extends_def)

lemma first_index_less: "\<exists>x \<in> set xs. P x \<Longrightarrow> first_index P xs < length xs"
  unfolding first_index_def by (induction xs) auto

lemma index_topic_bound:
  assumes "index_topic jaro_winkler threshold p s = Some i"
  shows "i < length (topics p)"
proof -
  define scores where "scores = map (jaro_winkler s) (topics p)"
  have r: "resolve_spec jaro_winkler threshold (topics p) s = Some i"
    using assms by (simp add: index_topic_resolve)
  have "i < length scores"
  proof (cases "1 \<in> set scores")
    case True
    then have "first_index (\<lambda>x. x = 1) scores < length scores"
      by (intro first_index_less) auto
    with r True show ?thesis by (simp add: resolve_spec_def scores_def)
  next
    case False
    show ?thesis
    proof (cases "scores = [] \<or> length scores = 1")
      case True
      with r False show ?thesis
        by (auto simp: resolve_spec_def scores_def Let_def split: if_splits)
    next
      case ne: False
      then have "first_index (\<lambda>x. x = best_score scores) scores < length scores"
        by (intro first_index_less) (auto intro: best_score_in)
      with r False ne show ?thesis
        by (auto simp: resolve_spec_def scores_def Let_def split: if_splits)
    qed
  qed
  then show ?thesis by (simp add: scores_def)
qed

lemma dict_set_fresh: "k \<notin> dict_keys kvs \<Longrightarrow> dict_set kvs k v = kvs @ [(k, v)]"
  by (induction kvs) (auto simp: dict_keys_def)

lemma store_inv_commit:
  assumes "store_inv p" "k \<notin> dict_keys (users p)" "\<forall>topic \<in> set ranks. topic < length (topics p)"
  shows "store_inv (p\<lparr>users := users p @ [(k, ranks)]\<rparr>)"
  using assms by (auto simp: store_inv_def dict_keys_def)

lemma store_inv_topic:
  assumes "store_inv p"
  shows "store_inv (p\<lparr>topics := topics p @ [t]\<rparr>)"
  using assms by (fastforce simp: store_inv_def)

lemma from_text_step_inv:
  assumes "locals_inv v" "from_text_step jaro_winkler threshold i line v = Inr v'"
  shows "locals_inv v' \<and> extends (self v) (self v')"
proof (cases "isspace line")
  case True
  show ?thesis
  proof (cases "state v")
    case TOPICS
    with True assms show ?thesis
      by (auto simp: from_text_step_def locals_inv_def extends_def)
  next
    case USERNAME
    with True assms show ?thesis
      by (auto simp: from_text_step_def locals_inv_def extends_def)
  next
    case PREFS
    with assms(1) have fresh: "username v \<notin> dict_keys (users (self v))"
      by (simp add: locals_inv_def)
    from PREFS True assms(2)
    have v': "v' = v\<lparr>self := (self v)\<lparr>users := users (self v) @ [(username v, prefs v)]\<rparr>,
                     prefs := [], username := [], state := USERNAME\<rparr>"
      by (simp add: from_text_step_def dict_set_fresh [OF fresh])
    have "store_inv ((self v)\<lparr>users := users (self v) @ [(username v, prefs v)]\<rparr>)"
      using assms(1) fresh by (intro store_inv_commit) (auto simp: locals_inv_def)
    then show ?thesis by (simp add: v' locals_inv_def extends_def)
  qed
next
  case False
  show ?thesis
  proof (cases "state v")
    case TOPICS
    with False assms(2)
    have v': "v' = v\<lparr>self := (self v)\<lparr>topics := topics (self v) @ [strip line]\<rparr>\<rparr>"
      by (simp add: from_text_step_def)
    have "store_inv ((self v)\<lparr>topics := topics (self v) @ [strip line]\<rparr>)"
      using assms(1) by (intro store_inv_topic) (simp add: locals_inv_def)
    with assms(1) TOPICS show ?thesis
      by (auto simp: v' locals_inv_def extends_def less_Suc_eq)
  next
    case USERNAME
    with False assms show ?thesis
      by (auto simp: from_text_step_def locals_inv_def extends_def Let_def split: if_splits)
  next
    case PREFS
    with False assms(2) obtain topic where
      t: "index_topic jaro_winkler threshold (self v) (strip line) = Some topic"
      and v': "v' = v\<lparr>prefs := prefs v @ [topic]\<rparr>"
      by (auto simp: from_text_step_def Let_def split: option.splits)
    from index_topic_bound [OF t] assms(1) PREFS show ?thesis
      by (auto simp: v' locals_inv_def extends_def)
  qed
qed

lemma from_text_loop_inv:
  assumes "locals_inv v" "from_text_loop jaro_winkler threshold ls v = (r, v')"
  shows "locals_inv v' \<and> extends (self v) (self v')"
  using assms
proof (induction ls arbitrary: v)
  case Nil
  then show ?case by (simp add: extends_refl)
next
  case (Cons l ls)
  obtain i line where l: "l = (i, line)" by (cases l)
  show ?case
  proof (cases "from_text_step jaro_winkler threshold i line v")
    case (Inl err)
    with Cons.prems l show ?thesis by (simp add: extends_refl)
  next
    case (Inr w)
    from from_text_step_inv [OF Cons.prems(1) Inr]
    have w: "locals_inv w" "extends (self v) (self w)" by simp_all
    from Cons.prems(2) l Inr have "from_text_loop jaro_winkler threshold ls w = (r, v')"
      by simp
    from Cons.IH [OF w(1) this] w(2) show ?thesis
      by (auto intro: extends_trans)
  qed
qed

lemma locals_inv_start: "store_inv shared \<Longrightarrow> locals_inv (from_text_start shared)"
  by (simp add: locals_inv_def from_text_start_def)

lemma from_text_inv:
  assumes "store_inv shared"
  shows "store_inv (snd (from_text jaro_winkler threshold lines shared))
       \<and> extends shared (snd (from_text jaro_winkler threshold lines shared))"
proof -
  obtain r v where loop:
    "from_text_loop jaro_winkler threshold (enumerate 0 lines) (from_text_start shared) = (r, v)"
    by (cases "from_text_loop jaro_winkler threshold (enumerate 0 lines) (from_text_start shared)")
  from from_text_loop_inv [OF locals_inv_start [OF assms] loop]
  have v: "locals_inv v" "extends shared (self v)"
    by (simp_all add: from_text_start_def)
  show ?thesis
  proof (cases "r = None \<and> username v \<noteq> []")
    case False
    with loop have "snd (from_text jaro_winkler threshold lines shared) = self v"
      by (cases r) (simp_all add: from_text_def Let_def)
    with v show ?thesis by (simp add: locals_inv_def)
  next
    case True
    with v(1) have "state v = PREFS" by (auto simp: locals_inv_def)
    with v(1) have fresh: "username v \<notin> dict_keys (users (self v))"
      by (simp add: locals_inv_def)
    have "store_inv ((self v)\<lparr>users := users (self v) @ [(username v, prefs v)]\<rparr>)"
      using v(1) fresh by (intro store_inv_commit) (auto simp: locals_inv_def)
    moreover have "extends shared ((self v)\<lparr>users := users (self v) @ [(username v, prefs v)]\<rparr>)"
      using v(2) by (auto simp: extends_def)
    ultimately show ?thesis using loop True
      by (simp add: from_text_def dict_set_fresh [OF fresh] Let_def)
  qed
qed

lemma from_text_returns_shared:
  assumes "from_text jaro_winkler threshold lines shared = (Inr p, shared')"
  shows "shared' = p"
proof -
  obtain r v where loop:
    "from_text_loop jaro_winkler threshold (enumerate 0 lines) (from_text_start shared) = (r, v)"
    by (cases "from_text_loop jaro_winkler threshold (enumerate 0 lines) (from_text_start shared)")
  show ?thesis
  proof (cases r)
    case None
    define result where "result =
      (if username v \<noteq> []
       then (self v)\<lparr>users := dict_set (users (self v)) (username v) (prefs v)\<rparr>
       else self v)"
    from loop None
    have "from_text jaro_winkler threshold lines shared = (Inr result, result)"
      by (simp add: from_text_def result_def Let_def)
    then have "snd (from_text jaro_winkler threshold lines shared) = result"
      and "fst (from_text jaro_winkler threshold lines shared) = Inr result"
      by simp_all
    moreover from assms
    have "snd (from_text jaro_winkler threshold lines shared) = shared'"
      and "fst (from_text jaro_winkler threshold lines shared) = Inr p"
      by simp_all
    ultimately show ?thesis by simp
  next
    case (Some err)
    with assms loop show ?thesis by (simp add: from_text_def)
  qed
qed

lemma shared_reachable_inv: "shared_reachable shared \<Longrightarrow> store_inv shared"
proof (induction rule: shared_reachable.induct)
  case initial
  show ?case by (simp add: store_inv_def empty_store_def)
next
  case (call shared jaro_winkler threshold lines)
  then show ?case by (simp add: from_text_inv)
qed

text \<open>
  Claim C9. Every store that \<^verbatim>\<open>from_text\<close> returns without raising satisfies the
  invariant of the data model: the topic indices of every ranking are below the number of
  topics, and no participant name occurs twice among the keys.
\<close>

theorem from_text_store_invariant:
  assumes "shared_reachable shared"
    and "from_text jaro_winkler threshold lines shared = (Inr p, shared')"
  shows "(\<forall>(name, ranks) \<in> set (users p). \<forall>topic \<in> set ranks. topic < length (topics p))
       \<and> distinct (map fst (users p))"
proof -
  from from_text_returns_shared [OF assms(2)] assms(2)
  have "p = snd (from_text jaro_winkler threshold lines shared)"
    by simp
  with from_text_inv [OF shared_reachable_inv [OF assms(1)], of jaro_winkler threshold lines]
  show ?thesis by (simp add: store_inv_def)
qed

text \<open>A similarity metric for concrete runs: 1 on equal strings and 0 otherwise.\<close>

definition exact_metric :: similarity where
  "exact_metric s t = (if s = t then 1 else 0)"

lemmas from_text_eval = from_text_def from_text_start_def from_text_step_def isspace_def
  strip_def is_whitespace_def dict_keys_def empty_store_def index_topic_def exact_metric_def
  Let_def

theorem from_text_store_invariant_witness:
  "shared_reachable empty_store
   \<and> from_text exact_metric 0.95
         [''X\<newline>'', ''\<newline>'', ''a@b.c\<newline>'', ''X\<newline>''] empty_store
       = (Inr \<lparr>topics = [''X''], users = [(''a@b.c'', [0])]\<rparr>,
          \<lparr>topics = [''X''], users = [(''a@b.c'', [0])]\<rparr>)
   \<and> store_inv \<lparr>topics = [''X''], users = [(''a@b.c'', [0])]\<rparr>"
proof -
  have run: "from_text exact_metric 0.95
         [''X\<newline>'', ''\<newline>'', ''a@b.c\<newline>'', ''X\<newline>''] empty_store
       = (Inr \<lparr>topics = [''X''], users = [(''a@b.c'', [0])]\<rparr>,
          \<lparr>topics = [''X''], users = [(''a@b.c'', [0])]\<rparr>)"
    by (simp add: from_text_eval)
  from from_text_store_invariant [OF shared_reachable.initial run] run shared_reachable.initial
  show ?thesis by (simp add: store_inv_def)
qed

theorem index_topic_policy_witness:
  "index_topic exact_metric 0.95 \<lparr>topics = [''Alpha'', ''Beta''], users = []\<rparr> ''Alpha'' = Some 0
   \<and> resolve_spec exact_metric 0.95 [''Alpha'', ''Beta''] ''Alpha'' = Some 0"
  using index_topic_policy [of exact_metric "0.95" "\<lparr>topics = [''Alpha'', ''Beta''], users = []\<rparr>" "''Alpha''"]
  by (simp add: index_topic_def exact_metric_def)

subsection \<open>Two calls in one process\<close>

lemma from_text_loop_append:
  "from_text_loop jaro_winkler threshold (xs @ ys) v =
     (case from_text_loop jaro_winkler threshold xs v of
        (Some err, v') \<Rightarrow> (Some err, v')
      | (None, v') \<Rightarrow> from_text_loop jaro_winkler threshold ys v')"
proof (induction xs arbitrary: v)
  case Nil
  show ?case by simp
next
  case (Cons x xs)
  obtain i line where x: "x = (i, line)" by (cases x)
  show ?case
    by (cases "from_text_step jaro_winkler threshold i line v") (simp_all add: x Cons.IH)
qed

lemma extends_keys: "extends p q \<Longrightarrow> dict_keys (users p) \<subseteq> dict_keys (users q)"
  by (auto simp: extends_def dict_keys_def)

lemma from_text_duplicate:
  assumes "store_inv shared"
    and "from_text_loop jaro_winkler threshold (enumerate 0 pre) (from_text_start shared) = (None, v)"
    and "state v = USERNAME" and "\<not> isspace nl"
    and "strip nl \<in> dict_keys (users shared)"
  shows "fst (from_text jaro_winkler threshold (pre @ nl # rest) shared)
           = Inl (Duplicate_username (length pre + 1) (strip nl))"
proof -
  from from_text_loop_inv [OF locals_inv_start [OF assms(1)] assms(2)]
  have "extends shared (self v)" by (simp add: from_text_start_def)
  with assms(5) have "strip nl \<in> dict_keys (users (self v))"
    using extends_keys by blast
  with assms(3,4)
  have "from_text_step jaro_winkler threshold (length pre) nl v
          = Inl (Duplicate_username (length pre + 1) (strip nl))"
    by (simp add: from_text_step_def)
  then have "from_text_loop jaro_winkler threshold
               (enumerate 0 (pre @ nl # rest)) (from_text_start shared)
             = (Some (Duplicate_username (length pre + 1) (strip nl)), v)"
    using assms(2) by (simp add: enumerate_append_eq from_text_loop_append)
  then show ?thesis by (simp add: from_text_def)
qed

text \<open>
  Claim C10. The stores built by \<^verbatim>\<open>from_text\<close> share the default-argument list and
  dictionary: the store a call returns is the content of the shared objects after the
  call; a later call in the same process starts from it, so the store it returns still
  begins with all topics and all participants of the earlier call; and when the later
  call reaches a user-name line (state \<open>USERNAME\<close>) that carries a name ingested by the
  earlier call, it raises the duplicate-username error for that line.
\<close>

theorem from_text_shared_state:
  assumes "shared_reachable shared0"
    and "from_text jaro_winkler threshold lines1 shared0 = (Inr p1, shared1)"
  shows "shared1 = p1
       \<and> (\<forall>metric t lines2 p2 shared2.
             from_text metric t lines2 shared1 = (Inr p2, shared2) \<longrightarrow>
             (\<exists>ts us. topics p2 = topics p1 @ ts \<and> users p2 = users p1 @ us))
       \<and> (\<forall>metric t pre nl rest v.
             from_text_loop metric t (enumerate 0 pre) (from_text_start shared1) = (None, v)
             \<and> state v = USERNAME \<and> \<not> isspace nl \<and> strip nl \<in> dict_keys (users p1) \<longrightarrow>
             fst (from_text metric t (pre @ nl # rest) shared1)
               = Inl (Duplicate_username (length pre + 1) (strip nl)))"
proof -
  have eq: "shared1 = p1" by (rule from_text_returns_shared [OF assms(2)])
  have "shared1 = snd (from_text jaro_winkler threshold lines1 shared0)"
    using assms(2) by simp
  with from_text_inv [OF shared_reachable_inv [OF assms(1)], of jaro_winkler threshold lines1]
  have inv: "store_inv shared1" by simp
  have ext: "\<exists>ts us. topics p2 = topics p1 @ ts \<and> users p2 = users p1 @ us"
    if "from_text metric t lines2 shared1 = (Inr p2, shared2)" for metric t lines2 p2 shared2
  proof -
    from from_text_returns_shared [OF that] that
    have "p2 = snd (from_text metric t lines2 shared1)" by simp
    with from_text_inv [OF inv, of metric t lines2] have "extends shared1 p2" by simp
    then show ?thesis by (simp add: extends_def eq)
  qed
  have dup: "fst (from_text metric t (pre @ nl # rest) shared1)
               = Inl (Duplicate_username (length pre + 1) (strip nl))"
    if "from_text_loop metric t (enumerate 0 pre) (from_text_start shared1) = (None, v)"
      "state v = USERNAME" "\<not> isspace nl" "strip nl \<in> dict_keys (users p1)"
    for metric t pre nl rest v
    using from_text_duplicate [OF inv that(1,2,3)] that(4) by (simp add: eq)
  from eq ext dup show ?thesis by blast
qed

theorem from_text_shared_state_witness:
  "shared_reachable empty_store
   \<and> from_text exact_metric 0.95
         [''X\<newline>'', ''\<newline>'', ''a@b.c\<newline>'', ''X\<newline>''] empty_store
       = (Inr \<lparr>topics = [''X''], users = [(''a@b.c'', [0])]\<rparr>,
          \<lparr>topics = [''X''], users = [(''a@b.c'', [0])]\<rparr>)
   \<and> from_text exact_metric 0.95 [''Y\<newline>'', ''\<newline>'', ''b@c.d\<newline>'', ''Y\<newline>'']
         \<lparr>topics = [''X''], users = [(''a@b.c'', [0])]\<rparr>
       = (Inr \<lparr>topics = [''X'', ''Y''], users = [(''a@b.c'', [0]), (''b@c.d'', [1])]\<rparr>,
          \<lparr>topics = [''X'', ''Y''], users = [(''a@b.c'', [0]), (''b@c.d'', [1])]\<rparr>)
   \<and> fst (from_text exact_metric 0.95
         ([''X\<newline>'', ''\<newline>''] @ ''a@b.c\<newline>'' # [''X\<newline>''])
         \<lparr>topics = [''X''], users = [(''a@b.c'', [0])]\<rparr>)
       = Inl (Duplicate_username 3 ''a@b.c'')"
proof -
  have run: "from_text exact_metric 0.95
         [''X\<newline>'', ''\<newline>'', ''a@b.c\<newline>'', ''X\<newline>''] empty_store
       = (Inr \<lparr>topics = [''X''], users = [(''a@b.c'', [0])]\<rparr>,
          \<lparr>topics = [''X''], users = [(''a@b.c'', [0])]\<rparr>)"
    by (simp add: from_text_eval)
  have second: "from_text exact_metric 0.95 [''Y\<newline>'', ''\<newline>'', ''b@c.d\<newline>'', ''Y\<newline>'']
         \<lparr>topics = [''X''], users = [(''a@b.c'', [0])]\<rparr>
       = (Inr \<lparr>topics = [''X'', ''Y''], users = [(''a@b.c'', [0]), (''b@c.d'', [1])]\<rparr>,
          \<lparr>topics = [''X'', ''Y''], users = [(''a@b.c'', [0]), (''b@c.d'', [1])]\<rparr>)"
    by (simp add: from_text_eval)
  have pre: "from_text_loop exact_metric 0.95 (enumerate 0 [''X\<newline>'', ''\<newline>''])
               (from_text_start \<lparr>topics = [''X''], users = [(''a@b.c'', [0])]\<rparr>)
             = (None, \<lparr>self = \<lparr>topics = [''X'', ''X''], users = [(''a@b.c'', [0])]\<rparr>,
                       state = USERNAME, username = [], prefs = []\<rparr>)"
    by (simp add: from_text_eval)
  note inst = from_text_shared_state [OF shared_reachable.initial run]
  have "fst (from_text exact_metric 0.95
         ([''X\<newline>'', ''\<newline>''] @ ''a@b.c\<newline>'' # [''X\<newline>''])
         \<lparr>topics = [''X''], users = [(''a@b.c'', [0])]\<rparr>)
       = Inl (Duplicate_username (length [''X\<newline>'', ''\<newline>''] + 1) (strip ''a@b.c\<newline>''))"
  proof (rule inst [THEN conjunct2, THEN conjunct2, rule_format])
    show "from_text_loop exact_metric 0.95 (enumerate 0 [''X\<newline>'', ''\<newline>''])
            (from_text_start \<lparr>topics = [''X''], users = [(''a@b.c'', [0])]\<rparr>)
          = (None, \<lparr>self = \<lparr>topics = [''X'', ''X''], users = [(''a@b.c'', [0])]\<rparr>,
                    state = USERNAME, username = [], prefs = []\<rparr>)
        \<and> state \<lparr>self = \<lparr>topics = [''X'', ''X''], users = [(''a@b.c'', [0])]\<rparr>,
                    state = USERNAME, username = [], prefs = []\<rparr> = USERNAME
        \<and> \<not> isspace ''a@b.c\<newline>''
        \<and> strip ''a@b.c\<newline>'' \<in> dict_keys (users \<lparr>topics = [''X''], users = [(''a@b.c'', [0])]\<rparr>)"
      using pre by (simp add: isspace_def strip_def is_whitespace_def dict_keys_def)
  qed
  then show ?thesis using run second shared_reachable.initial
    by (simp add: strip_def is_whitespace_def)
qed

subsection \<open>Leading blank lines and repeated preferences\<close>

text \<open>
  Claim C7 (leading blank lines are skipped) on the code: the \<^verbatim>\<open>takewhile\<close> iterator
  is never consumed, so a blank first line reaches the loop in state \<open>TOPICS\<close> and ends
  the topic section. The input with a leading blank line gives no topic and the user
  \<open>X\<close>; the same input without it gives the topic \<open>X\<close> and no user.
\<close>

theorem from_text_leading_blank_line:
  "fst (from_text jaro_winkler threshold [''\<newline>'', ''X\<newline>''] empty_store)
     = Inr \<lparr>topics = [], users = [(''X'', [])]\<rparr>
   \<and> fst (from_text jaro_winkler threshold [''X\<newline>''] empty_store)
     = Inr \<lparr>topics = [''X''], users = []\<rparr>"
  by (simp add: from_text_eval)

text \<open>
  Claim C8 (a preference that resolves to an index already in the current ranking is a
  fatal error) on the code: \<^verbatim>\<open>from_text\<close> appends the resolved index without looking
  at the ranking, so the same preference line twice gives the ranking \<open>[0, 0]\<close>.
\<close>

theorem from_text_repeated_preference:
  "fst (from_text exact_metric 0.95
         [''X\<newline>'', ''\<newline>'', ''u@e.com\<newline>'', ''X\<newline>'', ''X\<newline>''] empty_store)
     = Inr \<lparr>topics = [''X''], users = [(''u@e.com'', [0, 0])]\<rparr>"
  by (simp add: from_text_eval)

end
